theory Spec2Isabelle
  imports Complex_Main
begin

section \<open>Python values used by \<^verbatim>\<open>Placemat_Generator.py\<close>\<close>

text \<open>
  The exceptions that the modelled code paths can raise.  A function that may raise returns
  \<open>py_error + 'a\<close>, with \<open>Inl\<close> for the exception.
\<close>

datatype py_error = ValueError | ZeroDivisionError | OSError | IndexError

text \<open>
  Text is a \<open>char list\<close>; a \<open>char\<close> stands for a code point below 256 (the model covers
  Latin-1 text).  \<open>py_isspace\<close> is \<^verbatim>\<open>str.isspace\<close> on one such code point and \<open>py_lower\<close>
  is \<^verbatim>\<open>str.lower\<close> on one.
\<close>

definition py_isspace :: "char \<Rightarrow> bool" where
  "py_isspace c = (of_char c \<in> set [9, 10, 11, 12, 13, 28, 29, 30, 31, 32, 133, 160 :: nat])"

definition py_lower :: "char \<Rightarrow> char" where
  "py_lower c =
     (let n = (of_char c :: nat)
      in if (65 \<le> n \<and> n \<le> 90) \<or> (192 \<le> n \<and> n \<le> 222 \<and> n \<noteq> 215)
         then char_of (n + 32) else c)"

definition strip :: "string \<Rightarrow> string" where
  "strip s = rev (dropWhile py_isspace (rev (dropWhile py_isspace s)))"

definition lower :: "string \<Rightarrow> string" where
  "lower s = map py_lower s"

definition startswith :: "string \<Rightarrow> string \<Rightarrow> bool" where
  "startswith s p = (take (length p) s = p)"

section \<open>Text-file parsing: \<^verbatim>\<open>parse_input\<close>\<close>

text \<open>
  The file is opened in text mode, so \<^verbatim>\<open>\r\n\<close> and a lone \<^verbatim>\<open>\r\<close> reach the program as
  \<^verbatim>\<open>\n\<close>; iterating over the file yields the lines, each with its terminating \<^verbatim>\<open>\n\<close>
  (the last line has none when the text does not end in one).
\<close>

fun universal_newlines :: "string \<Rightarrow> string" where
  "universal_newlines [] = []"
| "universal_newlines [c] = [if c = CHR 0x0D then CHR 0x0A else c]"
| "universal_newlines (c # d # cs) =
     (if c = CHR 0x0D \<and> d = CHR 0x0A then CHR 0x0A # universal_newlines cs
      else if c = CHR 0x0D then CHR 0x0A # universal_newlines (d # cs)
      else c # universal_newlines (d # cs))"

fun file_lines :: "string \<Rightarrow> string \<Rightarrow> string list" where
  "file_lines cur [] = (if cur = [] then [] else [cur])"
| "file_lines cur (c # cs) =
     (if c = CHR 0x0A then (cur @ [c]) # file_lines [] cs else file_lines (cur @ [c]) cs)"

text \<open>
  The body of the \<^verbatim>\<open>for raw in fh\<close> loop, with the two variables it updates:
  \<^verbatim>\<open>current_table\<close> and \<^verbatim>\<open>results\<close>.
\<close>

fun parse_lines :: "string \<Rightarrow> (string \<times> string) list \<Rightarrow> string list \<Rightarrow> (string \<times> string) list" where
  "parse_lines current_table results [] = results"
| "parse_lines current_table results (raw # rest) =
     (let line = strip raw
      in if line = [] then parse_lines current_table results rest
         else if startswith (lower line) ''table'' then parse_lines line results rest
         else parse_lines current_table (results @ [(current_table, line)]) rest)"

definition parse_input :: "string \<Rightarrow> (string \<times> string) list" where
  "parse_input content = parse_lines [] [] (file_lines [] (universal_newlines content))"

section \<open>PDF layout: \<^verbatim>\<open>build_pdf\<close>\<close>

text \<open>
  Lengths are Python floats; the model computes with exact reals, so a rounding error of
  the float arithmetic is not part of it.  The three constants below are ReportLab's
  (\<^verbatim>\<open>reportlab.lib.units.inch\<close>, \<^verbatim>\<open>reportlab.lib.pagesizes.A4\<close> and \<^verbatim>\<open>letter\<close>, in points).
\<close>

definition inch :: real where
  "inch = 72"

definition A4 :: "real \<times> real" where
  "A4 = (210 * (inch / 2.54 * 0.1), 297 * (inch / 2.54 * 0.1))"

definition letter :: "real \<times> real" where
  "letter = (8.5 * inch, 11 * inch)"

text \<open>The values that \<^verbatim>\<open>build_pdf\<close> derives before it draws (lines 271 to 285).\<close>

record geometry =
  PAGE_W :: real
  PAGE_H :: real
  margin :: real
  cell_w :: real
  cell_h :: real
  row_gap :: real
  col_gap :: real
  rows :: int

text \<open>
  A division by zero raises: \<^verbatim>\<open>/ cols\<close> for \<^verbatim>\<open>cols = 0\<close>, \<^verbatim>\<open>tag_h_px / tag_w_px\<close> for a
  zero width, and the floor division for a zero \<^verbatim>\<open>cell_h + row_gap\<close>.  The only
  adjustment of \<^verbatim>\<open>rows\<close> is the test \<^verbatim>\<open>rows == 0\<close>.
\<close>

definition page_geometry :: "string \<Rightarrow> real \<Rightarrow> int \<Rightarrow> int \<times> int \<Rightarrow> py_error + geometry" where
  "page_geometry page_size_name margin_inch cols tag_size_px =
     (let (pw, ph) = (if lower page_size_name = ''a4'' then A4 else letter);
          m = margin_inch * inch
      in if cols = 0 then Inl ZeroDivisionError
         else
           let cw = (pw - 2 * m) / of_int cols;
               (tag_w_px, tag_h_px) = tag_size_px
           in if tag_w_px = 0 then Inl ZeroDivisionError
              else
                let aspect = of_int tag_h_px / of_int tag_w_px;
                    ch = cw * aspect;
                    gap = 0.1 * inch
                in if ch + gap = 0 then Inl ZeroDivisionError
                   else
                     let r = \<lfloor>(ph - 2 * m + gap) / (ch + gap)\<rfloor>
                     in Inr \<lparr>PAGE_W = pw, PAGE_H = ph, margin = m, cell_w = cw, cell_h = ch,
                             row_gap = gap, col_gap = gap,
                             rows = (if r = 0 then 1 else r)\<rparr>)"








definition local_idx :: "int \<Rightarrow> nat \<Rightarrow> int" where
  "local_idx total_per_page idx = int idx mod total_per_page"

definition col :: "int \<Rightarrow> int \<Rightarrow> nat \<Rightarrow> int" where
  "col cols total_per_page idx = local_idx total_per_page idx mod cols"







section \<open>Random numbers\<close>

text \<open>
  The module-level generator of \<^verbatim>\<open>random\<close> is a sequence of raw draws and a position in
  it; every call consumes one draw.  The sequence is arbitrary, so a statement about all
  generators holds for every run.  \<^verbatim>\<open>randint(a, b)\<close> raises for an empty range and can
  return every integer from \<open>a\<close> to \<open>b\<close>; \<^verbatim>\<open>choice\<close> raises on an empty sequence;
  \<^verbatim>\<open>uniform(a, b)\<close> is \<open>a + (b - a) * random()\<close> with \<open>random()\<close> a multiple of
  \<open>2 ^ - 53\<close> below 1 (computed exactly, as all float arithmetic in this theory).
\<close>

record rng =
  draws :: "nat \<Rightarrow> nat"
  pos :: nat

definition next_draw :: "rng \<Rightarrow> nat \<times> rng" where
  "next_draw g = (draws g (pos g), g\<lparr>pos := pos g + 1\<rparr>)"

definition randint :: "int \<Rightarrow> int \<Rightarrow> rng \<Rightarrow> py_error + (int \<times> rng)" where
  "randint a b g =
     (if b < a then Inl ValueError
      else let (n, g') = next_draw g in Inr (a + int n mod (b - a + 1), g'))"

definition choice :: "'a list \<Rightarrow> rng \<Rightarrow> py_error + ('a \<times> rng)" where
  "choice xs g =
     (if xs = [] then Inl IndexError
      else let (n, g') = next_draw g in Inr (xs ! (n mod length xs), g'))"

definition uniform :: "rat \<Rightarrow> rat \<Rightarrow> rng \<Rightarrow> rat \<times> rng" where
  "uniform a b g =
     (let (n, g') = next_draw g in (a + (b - a) * (of_int (int n mod 2 ^ 53) / 2 ^ 53), g'))"

section \<open>Tag compositor: \<^verbatim>\<open>compose_tag\<close>\<close>

text \<open>The colour palette of the module; \<^verbatim>\<open>BLACK\<close> is defined as \<^verbatim>\<open>#ffffff\<close> there.\<close>

type_synonym colour = string

definition PINK :: colour where "PINK = ''#ffc0cb''"
definition GOLD :: colour where "GOLD = ''#ffd700''"
definition FAINT_PINK :: colour where "FAINT_PINK = ''#ffcdfe''"
definition FAINT_GOLD :: colour where "FAINT_GOLD = ''#ffe493''"
definition FAINT_GREEN :: colour where "FAINT_GREEN = ''#cce8cf''"
definition BLACK :: colour where "BLACK = ''#ffffff''"
definition PASTELS :: "colour list" where "PASTELS = [FAINT_PINK, FAINT_GOLD, FAINT_GREEN]"

text \<open>
  The image is its size and the drawing calls made on it, in order.  A pie slice, an
  ellipse and a rectangle carry the bounding box given to Pillow (two corner points); a
  pie slice also its start and end angle in degrees.  \<open>Motif\<close> is one call of
  \<^verbatim>\<open>draw_with_tilt\<close>: the drawing function, the centre, the size handed to it, the colour,
  the tilt angle and, for \<^verbatim>\<open>draw_flower\<close>, the random base angle that function draws.  The
  polygons inside a motif are not part of the model.
\<close>

type_synonym box = "(int \<times> int) \<times> (int \<times> int)"

datatype draw_fn = draw_flower | draw_heart | draw_wine_glass | draw_diamond

datatype font = FreeTypeFont string int | DefaultFont

datatype draw_op =
    Pieslice box int int colour
  | Ellipse box colour
  | Motif draw_fn int int int colour rat "rat option"
  | Rectangle box colour int
  | Text "rat \<times> int" string colour font

text \<open>
  \<^verbatim>\<open>draw_with_tilt\<close> (lines 78 to 90): the tilt is drawn first, then the drawing function
  runs; only \<^verbatim>\<open>draw_flower\<close> consumes a random number.
\<close>

definition run_draw_fn :: "draw_fn \<Rightarrow> rng \<Rightarrow> rat option \<times> rng" where
  "run_draw_fn fn g =
     (case fn of
        draw_flower \<Rightarrow> (let (mid_angle, g') = uniform 0 360 g in (Some mid_angle, g'))
      | _ \<Rightarrow> (None, g))"

definition draw_with_tilt :: "draw_fn \<Rightarrow> int \<Rightarrow> int \<Rightarrow> int \<Rightarrow> colour \<Rightarrow> rng \<Rightarrow> draw_op \<times> rng" where
  "draw_with_tilt fn cx cy sz colour g =
     (let (tilt_angle, g1) = uniform (- 30) 30 g;
          (mid, g2) = run_draw_fn fn g1
      in (Motif fn cx cy sz colour tilt_angle mid, g2))"

text \<open>
  The state of the decoration loop: the drawing calls made so far, the list \<^verbatim>\<open>placed\<close> of
  accepted shapes (centre and radius) and the generator.
\<close>

record deco =
  canvas :: "draw_op list"
  placed :: "(int \<times> int \<times> int) list"
  gen :: rng

text \<open>
  \<^verbatim>\<open>math.hypot(dx, dy) >= s\<close> on integers, decided in exact arithmetic, and the test of
  line 213 over the placed shapes.
\<close>

definition hypot_ge :: "int \<Rightarrow> int \<Rightarrow> int \<Rightarrow> bool" where
  "hypot_ge dx dy s = (s \<le> 0 \<or> s * s \<le> dx * dx + dy * dy)"

definition fits :: "int \<Rightarrow> int \<Rightarrow> int \<Rightarrow> (int \<times> int \<times> int) list \<Rightarrow> bool" where
  "fits cx cy r ps = list_all (\<lambda>(x, y, pr). hypot_ge (cx - x) (cy - y) (r + pr)) ps"

text \<open>The body of the \<^verbatim>\<open>if all(...)\<close> branch, lines 214 to 227.\<close>

definition accept :: "bool \<Rightarrow> bool \<Rightarrow> int \<Rightarrow> int \<Rightarrow> int \<Rightarrow> deco \<Rightarrow> py_error + deco" where
  "accept random_bubbles flowers cx cy r st =
     (case choice PASTELS (gen st) of
        Inl e \<Rightarrow> Inl e
      | Inr (colour, g1) \<Rightarrow>
          let ops1 = (if random_bubbles
                      then canvas st @ [Ellipse ((cx - r, cy - r), (cx + r, cy + r)) colour]
                      else canvas st)
          in if flowers
             then (case choice [''flower'', ''heart'', ''wine'', ''diamond''] g1 of
                     Inl e \<Rightarrow> Inl e
                   | Inr (motif, g2) \<Rightarrow>
                       let (op, g3) =
                             (if motif = ''flower'' then draw_with_tilt draw_flower cx cy r colour g2
                              else if motif = ''heart'' then draw_with_tilt draw_heart cx cy r colour g2
                              else if motif = ''wine''
                                then draw_with_tilt draw_wine_glass cx cy (r * 2) colour g2
                              else draw_with_tilt draw_diamond cx cy r colour g2)
                       in Inr \<lparr>canvas = ops1 @ [op], placed = placed st @ [(cx, cy, r)], gen = g3\<rparr>)
             else Inr \<lparr>canvas = ops1, placed = placed st @ [(cx, cy, r)], gen = g1\<rparr>)"

text \<open>
  The \<^verbatim>\<open>while retries\<close> loop of one shape, lines 209 to 229.  The first argument is the
  value of \<^verbatim>\<open>retries\<close>; the result carries its value when the loop is left: 0 after the
  budget is used up, the value at the \<^verbatim>\<open>break\<close> otherwise.
\<close>

fun place_shape :: "nat \<Rightarrow> int \<Rightarrow> int \<Rightarrow> bool \<Rightarrow> bool \<Rightarrow> deco \<Rightarrow> py_error + (nat \<times> deco)" where
  "place_shape 0 W H random_bubbles flowers st = Inr (0, st)"
| "place_shape (Suc retries) W H random_bubbles flowers st =
     (case randint (min W H div 30) (min W H div 15) (gen st) of
        Inl e \<Rightarrow> Inl e
      | Inr (r, g1) \<Rightarrow>
          (case randint r (W - r) g1 of
             Inl e \<Rightarrow> Inl e
           | Inr (cx, g2) \<Rightarrow>
               (case randint r (H - r) g2 of
                  Inl e \<Rightarrow> Inl e
                | Inr (cy, g3) \<Rightarrow>
                    if fits cx cy r (placed st)
                    then (case accept random_bubbles flowers cx cy r (st\<lparr>gen := g3\<rparr>) of
                            Inl e \<Rightarrow> Inl e
                          | Inr st' \<Rightarrow> Inr (Suc retries, st'))
                    else place_shape retries W H random_bubbles flowers (st\<lparr>gen := g3\<rparr>))))"

text \<open>The \<^verbatim>\<open>for _ in range(n)\<close> loop around it; the program runs it with \<open>n = 80\<close>.\<close>

fun place_shapes :: "nat \<Rightarrow> int \<Rightarrow> int \<Rightarrow> bool \<Rightarrow> bool \<Rightarrow> deco \<Rightarrow> py_error + deco" where
  "place_shapes 0 W H random_bubbles flowers st = Inr st"
| "place_shapes (Suc n) W H random_bubbles flowers st =
     (case place_shape 50 W H random_bubbles flowers st of
        Inl e \<Rightarrow> Inl e
      | Inr (retries, st') \<Rightarrow> place_shapes n W H random_bubbles flowers st')"

text \<open>The four pie slices of lines 197 to 203.\<close>

definition washes :: "int \<Rightarrow> int \<Rightarrow> draw_op list" where
  "washes W H =
     (let R = min W H div 2;
          r_s = min W H div 4
      in [Pieslice ((- R, H - 2 * R), (R, H + R)) 90 180 PINK,
          Pieslice ((W - R, - R), (W + R, R)) (- 90) 0 GOLD,
          Pieslice ((- r_s, - r_s), (r_s, r_s)) 180 270 FAINT_PINK,
          Pieslice ((W - r_s, - r_s), (W + r_s, r_s)) 270 360 FAINT_PINK])"

text \<open>Lines 205 to 229: the decoration, run when one of the two flags is set.\<close>

definition decorate :: "int \<Rightarrow> int \<Rightarrow> bool \<Rightarrow> bool \<Rightarrow> draw_op list \<Rightarrow> rng \<Rightarrow> py_error + deco" where
  "decorate W H random_bubbles flowers ops g =
     (if random_bubbles \<or> flowers
      then place_shapes 80 W H random_bubbles flowers \<lparr>canvas = ops, placed = [], gen = g\<rparr>
      else Inr \<lparr>canvas = ops, placed = [], gen = g\<rparr>)"

text \<open>
  Fonts.  Which font files load, and how wide a text is in a font, is given by the
  environment: \<open>truetype\<close> is \<^verbatim>\<open>ImageFont.truetype\<close> (it returns the font or raises) and
  \<open>getbbox\<close> is \<^verbatim>\<open>font.getbbox\<close>.  \<^verbatim>\<open>int(x)\<close> truncates towards zero.
\<close>

record fonts =
  truetype :: "string \<Rightarrow> int \<Rightarrow> py_error + font"
  getbbox :: "font \<Rightarrow> string \<Rightarrow> int \<times> int \<times> int \<times> int"

definition py_int :: "rat \<Rightarrow> int" where
  "py_int x = (if 0 \<le> x then \<lfloor>x\<rfloor> else \<lceil>x\<rceil>)"

text \<open>\<^verbatim>\<open>font_size or int(H * 0.25)\<close>: the default replaces every falsy value, 0 included.\<close>

definition primary_size :: "int option \<Rightarrow> int \<Rightarrow> int" where
  "primary_size font_size H =
     (case font_size of
        None \<Rightarrow> py_int (of_int H * 0.25)
      | Some n \<Rightarrow> if n = 0 then py_int (of_int H * 0.25) else n)"

text \<open>The line that \<^verbatim>\<open>compose_tag\<close> prints when the font does not load.\<close>

definition not_found_message :: "string \<Rightarrow> string" where
  "not_found_message font_path =
     ''Font '' @ [CHR 0x27] @ font_path @ [CHR 0x27] @ '' not found; using default.''"

text \<open>
  The \<^verbatim>\<open>try\<close> block of lines 235 to 241: an \<^verbatim>\<open>OSError\<close> of either call selects the default
  font for both labels and prints a line; any other exception propagates.
\<close>

definition load_fonts :: "fonts \<Rightarrow> string \<Rightarrow> int \<Rightarrow> py_error + (font \<times> font \<times> string list)" where
  "load_fonts env font_path fs =
     (let fallback = Inr (DefaultFont, DefaultFont, [not_found_message font_path])
      in case truetype env font_path fs of
           Inl e \<Rightarrow> (if e = OSError then fallback else Inl e)
         | Inr f \<Rightarrow>
             (case truetype env font_path (py_int (of_int fs * 0.7)) of
                Inl e \<Rightarrow> (if e = OSError then fallback else Inl e)
              | Inr sf \<Rightarrow> Inr (f, sf, [])))"

text \<open>Lines 243 to 252: the two labels.\<close>

definition labels :: "fonts \<Rightarrow> int \<Rightarrow> int \<Rightarrow> string \<Rightarrow> string \<Rightarrow> font \<Rightarrow> font \<Rightarrow> draw_op list" where
  "labels env W H name table_label fnt small_font =
     (let (n0, n1, n2, n3) = getbbox env fnt name;
          name_tw = n2 - n0;
          name_th = n3 - n1;
          (table_tw, table_th) =
             (if table_label \<noteq> []
              then (let (t0, t1, t2, t3) = getbbox env small_font table_label in (t2 - t0, t3 - t1))
              else (0, 0));
          total_height = name_th + (if table_label \<noteq> [] then table_th else 0)
                           + py_int (of_int H * 0.05);
          name_y = (H - total_height) div 2;
          table_y = name_y + name_th + py_int (of_int H * 0.02)
      in [Text (of_int (W - name_tw) / 2, name_y) name ''black'' fnt] @
         (if table_label \<noteq> []
          then [Text (of_int (W - table_tw) / 2, table_y) table_label ''black'' small_font]
          else []))"

text \<open>
  \<^verbatim>\<open>compose_tag\<close>.  \<^verbatim>\<open>Image.new\<close> raises \<^verbatim>\<open>ValueError\<close> for a negative width or height.
  The result is the image (its size and the drawing calls), the lines printed and the
  generator after the call.
\<close>

record tag =
  tag_size :: "int \<times> int"
  tag_ops :: "draw_op list"
  printed :: "string list"
  tag_gen :: rng

definition compose_tag ::
  "fonts \<Rightarrow> string \<Rightarrow> string \<Rightarrow> int \<times> int \<Rightarrow> int option \<Rightarrow> bool \<Rightarrow> bool \<Rightarrow> string \<Rightarrow> rng
     \<Rightarrow> py_error + tag" where
  "compose_tag env name font_path sz font_size random_bubbles flowers table_label g =
     (let (W, H) = sz
      in if W < 0 \<or> H < 0 then Inl ValueError
         else
           (case decorate W H random_bubbles flowers (washes W H) g of
              Inl e \<Rightarrow> Inl e
            | Inr st \<Rightarrow>
                let border = max 2 (min W H div 25);
                    ops1 = canvas st @ [Rectangle ((0, 0), (W - 1, H - 1)) BLACK border];
                    fs = primary_size font_size H
                in (case load_fonts env font_path fs of
                      Inl e \<Rightarrow> Inl e
                    | Inr (fnt, small_font, out) \<Rightarrow>
                        Inr \<lparr>tag_size = (W, H),
                             tag_ops = ops1 @ labels env W H name table_label fnt small_font,
                             printed = out,
                             tag_gen = gen st\<rparr>)))"

section \<open>Notions used to state the properties of the decoration\<close>

text \<open>
  The Euclidean distance between the centres of two placed shapes, and the property that
  every two shapes at different positions of a list are at least the sum of their radii
  apart.
\<close>

definition centre_distance :: "int \<times> int \<times> int \<Rightarrow> int \<times> int \<times> int \<Rightarrow> real" where
  "centre_distance p q =
     (case (p, q) of ((x1, y1, r1), (x2, y2, r2)) \<Rightarrow>
        sqrt (real_of_int ((x1 - x2) * (x1 - x2) + (y1 - y2) * (y1 - y2))))"

definition radius :: "int \<times> int \<times> int \<Rightarrow> int" where
  "radius p = snd (snd p)"

definition apart :: "int \<times> int \<times> int \<Rightarrow> int \<times> int \<times> int \<Rightarrow> bool" where
  "apart p q \<longleftrightarrow> real_of_int (radius p + radius q) \<le> centre_distance p q"

definition separated :: "(int \<times> int \<times> int) list \<Rightarrow> bool" where
  "separated ps \<longleftrightarrow> (\<forall>i < length ps. \<forall>j < length ps. i \<noteq> j \<longrightarrow> apart (ps ! i) (ps ! j))"

text \<open>
  The drawing calls made for one accepted shape \<open>p\<close> with colour, motif, tilt and base
  angle \<open>d\<close>, and those made for a list of shapes; a shape as the sampling of lines 210 to
  212 can produce it; and what one run of the retry loop from \<open>k\<close> retries leaves behind:
  either nothing but \<open>3 * k\<close> consumed random numbers (final value 0), or one more
  shape.
\<close>

definition shape_ops ::
  "bool \<Rightarrow> bool \<Rightarrow> int \<times> int \<times> int \<Rightarrow> colour \<times> draw_fn \<times> rat \<times> rat option \<Rightarrow> draw_op list" where
  "shape_ops random_bubbles flowers p d =
     (case (p, d) of ((cx, cy, r), (colour, fn, tilt, mid)) \<Rightarrow>
        (if random_bubbles then [Ellipse ((cx - r, cy - r), (cx + r, cy + r)) colour] else [])
        @ (if flowers
           then [Motif fn cx cy (if fn = draw_wine_glass then r * 2 else r) colour tilt mid]
           else []))"

definition shapes_drawn ::
  "bool \<Rightarrow> bool \<Rightarrow> (int \<times> int \<times> int) list \<Rightarrow> (colour \<times> draw_fn \<times> rat \<times> rat option) list
     \<Rightarrow> draw_op list" where
  "shapes_drawn random_bubbles flowers ps ds =
     concat (map (\<lambda>(p, d). shape_ops random_bubbles flowers p d) (zip ps ds))"

definition in_canvas :: "int \<Rightarrow> int \<Rightarrow> int \<times> int \<times> int \<Rightarrow> bool" where
  "in_canvas W H p =
     (case p of (cx, cy, r) \<Rightarrow>
        min W H div 30 \<le> r \<and> r \<le> min W H div 15 \<and> r \<le> cx \<and> cx \<le> W - r \<and> r \<le> cy \<and> cy \<le> H - r)"

definition shape_outcome ::
  "int \<Rightarrow> int \<Rightarrow> bool \<Rightarrow> bool \<Rightarrow> nat \<Rightarrow> deco \<Rightarrow> nat \<Rightarrow> deco \<Rightarrow> bool" where
  "shape_outcome W H rb fl k st k' st' \<longleftrightarrow>
     k' \<le> k \<and>
     (k' = 0 \<longrightarrow> canvas st' = canvas st \<and> placed st' = placed st \<and>
                  pos (gen st') = pos (gen st) + 3 * k) \<and>
     (0 < k' \<longrightarrow>
        (\<exists>p d. placed st' = placed st @ [p] \<and> canvas st' = canvas st @ shape_ops rb fl p d \<and>
               fst d \<in> set PASTELS \<and> in_canvas W H p \<and>
               fits (fst p) (fst (snd p)) (snd (snd p)) (placed st)) \<and>
        pos (gen st) + 3 * (k - k' + 1) < pos (gen st') \<and>
        pos (gen st') \<le> pos (gen st) + 3 * (k - k' + 1) + 4)"


section \<open>Parsing: the worked example\<close>

lemma strip_examples:
  "strip ''Table 1\<newline>'' = ''Table 1''"
  "strip ''Alice Smith\<newline>'' = ''Alice Smith''"
  "strip ''Bob Jones\<newline>'' = ''Bob Jones''"
  "strip ''\<newline>'' = ''''"
  "strip ''Carol Lee'' = ''Carol Lee''"
  by (simp_all add: strip_def py_isspace_def)

lemma table_marker_examples:
  "startswith (lower ''Table 1'') ''table''"
  "\<not> startswith (lower ''Alice Smith'') ''table''"
  "\<not> startswith (lower ''Bob Jones'') ''table''"
  "\<not> startswith (lower ''Carol Lee'') ''table''"
  by code_simp+

lemma example_lines:
  "file_lines [] (universal_newlines ''Table 1\<newline>Alice Smith\<newline>Bob Jones\<newline>\<newline>Carol Lee'') =
     [''Table 1\<newline>'', ''Alice Smith\<newline>'', ''Bob Jones\<newline>'', ''\<newline>'', ''Carol Lee'']"
  by simp

text \<open>
  Claim C5 (as amended).  On the text \<^verbatim>\<open>"Table 1\nAlice Smith\nBob Jones\n\nCarol Lee"\<close>,
  \<^verbatim>\<open>parse_input\<close> returns three pairs (group label, name), in input order, and all three
  carry the label \<^verbatim>\<open>Table 1\<close>: the blank line before Carol Lee is skipped by
  \<^verbatim>\<open>continue\<close> and leaves \<^verbatim>\<open>current_table\<close> as it was.
\<close>

theorem parse_input_example:
  "parse_input ''Table 1\<newline>Alice Smith\<newline>Bob Jones\<newline>\<newline>Carol Lee'' =
     [(''Table 1'', ''Alice Smith''), (''Table 1'', ''Bob Jones''), (''Table 1'', ''Carol Lee'')]"
  unfolding parse_input_def example_lines
  by (simp add: Let_def strip_examples table_marker_examples)

text \<open>
  Claim C5 as stated pairs Carol Lee with the empty label; the function does not return
  that list.
\<close>

theorem parse_input_example_not_empty_label:
  "parse_input ''Table 1\<newline>Alice Smith\<newline>Bob Jones\<newline>\<newline>Carol Lee'' \<noteq>
     [(''Table 1'', ''Alice Smith''), (''Table 1'', ''Bob Jones''), ('''', ''Carol Lee'')]"
  unfolding parse_input_def example_lines
  by (simp add: Let_def strip_examples table_marker_examples)

section \<open>PDF layout: pages and slots\<close>





























section \<open>PDF layout: rows per page\<close>

lemma page_geometry_rows_nonzero:
  "page_geometry page_size_name margin_inch cols tag_size_px = Inr g \<Longrightarrow> rows g \<noteq> 0"
  by (auto simp: page_geometry_def Let_def split: if_splits prod.splits)

lemma page_geometry_rows_positive:
  assumes g: "page_geometry page_size_name margin_inch cols tag_size_px = Inr g"
    and q: "0 \<le> (PAGE_H g - 2 * margin g + row_gap g) / (cell_h g + row_gap g)"
  shows "1 \<le> rows g"
proof -
  have "rows g = (if \<lfloor>(PAGE_H g - 2 * margin g + row_gap g) / (cell_h g + row_gap g)\<rfloor> = 0 then 1
                  else \<lfloor>(PAGE_H g - 2 * margin g + row_gap g) / (cell_h g + row_gap g)\<rfloor>)"
    using g by (auto simp: page_geometry_def Let_def split: if_splits prod.splits)
  moreover have "0 \<le> \<lfloor>(PAGE_H g - 2 * margin g + row_gap g) / (cell_h g + row_gap g)\<rfloor>"
    using q by simp
  ultimately show ?thesis by presburger
qed

text \<open>
  Claim C4 says that the computed number of rows is at least 1 whatever the page size,
  margin, column count and tag size.  The function replaces a result of 0 by 1 and
  leaves a negative result as it is: on A4 paper with two columns, a margin of 6 inches
  and tags of 1000 by 10 pixels (the available height is negative, the cell height plus
  gap positive) it computes \<open>- 3\<close> rows, and with a margin of 5 inches and tags of 1000
  by 500 pixels (the available height is positive, the cell height plus gap negative) it
  computes \<open>- 6\<close> rows.
\<close>

theorem page_geometry_negative_rows:
  "page_geometry ''a4'' 6 2 (1000, 10) =
     Inr \<lparr>PAGE_W = 75600 / 127, PAGE_H = 106920 / 127, margin = 432, cell_w = - (17064 / 127),
          cell_h = - (4266 / 3175), row_gap = 36 / 5, col_gap = 36 / 5, rows = - 3\<rparr> \<and>
   page_geometry ''a4'' 5 2 (1000, 500) =
     Inr \<lparr>PAGE_W = 75600 / 127, PAGE_H = 106920 / 127, margin = 360, cell_w = - (7920 / 127),
          cell_h = - (3960 / 127), row_gap = 36 / 5, col_gap = 36 / 5, rows = - 6\<rparr>"
  by (simp add: page_geometry_def lower_def py_lower_def A4_def letter_def inch_def Let_def)

section \<open>Decoration: placement of the shapes\<close>

lemma hypot_ge_sqrt:
  "hypot_ge dx dy s \<longleftrightarrow> real_of_int s \<le> sqrt (real_of_int (dx * dx + dy * dy))"
proof (cases "s \<le> 0")
  case True
  have "0 \<le> dx * dx + dy * dy" by simp
  then have "0 \<le> sqrt (real_of_int (dx * dx + dy * dy))" by simp
  moreover have "real_of_int s \<le> 0" using True by simp
  ultimately have "real_of_int s \<le> sqrt (real_of_int (dx * dx + dy * dy))"
    by linarith
  then show ?thesis unfolding hypot_ge_def using True by blast
next
  case False
  then have s: "0 < real_of_int s" by simp
  have "(real_of_int s \<le> sqrt (real_of_int (dx * dx + dy * dy)))
          = ((real_of_int s)\<^sup>2 \<le> real_of_int (dx * dx + dy * dy))"
  proof
    assume "real_of_int s \<le> sqrt (real_of_int (dx * dx + dy * dy))"
    then have "\<bar>real_of_int s\<bar> \<le> sqrt (real_of_int (dx * dx + dy * dy))" using s by simp
    then show "(real_of_int s)\<^sup>2 \<le> real_of_int (dx * dx + dy * dy)" by (rule sqrt_ge_absD)
  next
    assume "(real_of_int s)\<^sup>2 \<le> real_of_int (dx * dx + dy * dy)"
    then show "real_of_int s \<le> sqrt (real_of_int (dx * dx + dy * dy))" by (rule real_le_rsqrt)
  qed
  also have "\<dots> = (s * s \<le> dx * dx + dy * dy)"
  proof -
    have "(real_of_int s)\<^sup>2 = real_of_int (s * s)" by (simp add: power2_eq_square)
    then show ?thesis by (simp only: of_int_le_iff)
  qed
  finally show ?thesis unfolding hypot_ge_def using False by blast
qed

lemma apart_sym: "apart p q \<longleftrightarrow> apart q p"
proof -
  obtain x1 y1 r1 x2 y2 r2 where p: "p = (x1, y1, r1)" and q: "q = (x2, y2, r2)"
    by (metis prod_cases3)
  have e: "(x1 - x2) * (x1 - x2) + (y1 - y2) * (y1 - y2) = (x2 - x1) * (x2 - x1) + (y2 - y1) * (y2 - y1)"
    by (simp add: algebra_simps)
  have "centre_distance p q = centre_distance q p"
    by (simp only: centre_distance_def p q prod.case e)
  then show ?thesis unfolding apart_def by (simp add: add.commute)
qed

lemma fits_apart: "fits cx cy r ps \<longleftrightarrow> (\<forall>p \<in> set ps. apart p (cx, cy, r))"
proof -
  have "\<And>x y pr. hypot_ge (cx - x) (cy - y) (r + pr) \<longleftrightarrow> apart (cx, cy, r) (x, y, pr)"
    unfolding hypot_ge_sqrt apart_def centre_distance_def radius_def by simp
  then have "fits cx cy r ps \<longleftrightarrow> (\<forall>p \<in> set ps. apart (cx, cy, r) p)"
    unfolding fits_def list_all_iff by auto
  then show ?thesis using apart_sym by blast
qed

lemma separated_Nil: "separated []"
  by (simp add: separated_def)

lemma separated_snoc:
  assumes sep: "separated ps" and new: "\<forall>p \<in> set ps. apart p q"
  shows "separated (ps @ [q])"
  unfolding separated_def
proof (intro allI impI)
  fix i j
  assume i: "i < length (ps @ [q])" and j: "j < length (ps @ [q])" and ne: "i \<noteq> j"
  show "apart ((ps @ [q]) ! i) ((ps @ [q]) ! j)"
  proof (cases "i < length ps")
    case True
    note ti = True
    show ?thesis
    proof (cases "j < length ps")
      case True
      then show ?thesis using ti sep ne by (simp add: separated_def nth_append)
    next
      case False
      then have "j = length ps" using j by simp
      then show ?thesis using ti new by (simp add: nth_append)
    qed
  next
    case False
    then have ii: "i = length ps" using i by simp
    then have "j < length ps" using j ne by simp
    then have "apart (ps ! j) q" using new by simp
    then have "apart q (ps ! j)" using apart_sym by blast
    then show ?thesis using ii \<open>j < length ps\<close> by (simp add: nth_append)
  qed
qed

lemma accept_placed:
  "accept random_bubbles flowers cx cy r st = Inr st' \<Longrightarrow> placed st' = placed st @ [(cx, cy, r)]"
  by (auto simp: accept_def Let_def split: sum.splits prod.splits if_splits)

lemma place_shape_separated:
  "separated (placed st) \<Longrightarrow> place_shape k W H random_bubbles flowers st = Inr (k', st') \<Longrightarrow>
     separated (placed st')"
proof (induction k arbitrary: st)
  case 0
  then show ?case by simp
next
  case (Suc k)
  from Suc.prems(2) obtain r g1 cx g2 cy g3 where
    step: "(if fits cx cy r (placed st)
            then (case accept random_bubbles flowers cx cy r (st\<lparr>gen := g3\<rparr>) of
                    Inl e \<Rightarrow> Inl e | Inr s \<Rightarrow> Inr (Suc k, s))
            else place_shape k W H random_bubbles flowers (st\<lparr>gen := g3\<rparr>)) = Inr (k', st')"
    by (auto split: sum.splits prod.splits)
  show ?case
  proof (cases "fits cx cy r (placed st)")
    case True
    with step obtain s where a: "accept random_bubbles flowers cx cy r (st\<lparr>gen := g3\<rparr>) = Inr s"
      and s: "st' = s" by (auto split: sum.splits)
    have "placed st' = placed st @ [(cx, cy, r)]" using accept_placed [OF a] s by simp
    moreover have "\<forall>p \<in> set (placed st). apart p (cx, cy, r)" using True fits_apart by blast
    ultimately show ?thesis using separated_snoc [OF Suc.prems(1)] by simp
  next
    case False
    with step have "place_shape k W H random_bubbles flowers (st\<lparr>gen := g3\<rparr>) = Inr (k', st')"
      by simp
    moreover have "separated (placed (st\<lparr>gen := g3\<rparr>))" using Suc.prems(1) by simp
    ultimately show ?thesis using Suc.IH by blast
  qed
qed

lemma place_shapes_separated:
  "separated (placed st) \<Longrightarrow> place_shapes n W H random_bubbles flowers st = Inr st' \<Longrightarrow>
     separated (placed st')"
proof (induction n arbitrary: st)
  case 0
  then show ?case by simp
next
  case (Suc n)
  from Suc.prems(2) obtain k s where
    one: "place_shape 50 W H random_bubbles flowers st = Inr (k, s)"
    and rest: "place_shapes n W H random_bubbles flowers s = Inr st'"
    by (auto split: sum.splits prod.splits)
  have "separated (placed s)" using place_shape_separated [OF Suc.prems(1) one] .
  then show ?case using Suc.IH rest by blast
qed

lemma randint_ok:
  assumes "a \<le> b"
  shows "\<exists>v g'. randint a b g = Inr (v, g') \<and> a \<le> v \<and> v \<le> b \<and> pos g' = pos g + 1"
proof -
  have p: "0 < b - a + 1" using assms by simp
  let ?v = "a + int (draws g (pos g)) mod (b - a + 1)"
  have "0 \<le> int (draws g (pos g)) mod (b - a + 1)" using p by (rule pos_mod_sign)
  moreover have "int (draws g (pos g)) mod (b - a + 1) < b - a + 1" using p by (rule pos_mod_bound)
  ultimately have "a \<le> ?v" "?v \<le> b" by linarith+
  then show ?thesis using assms by (simp add: randint_def next_draw_def)
qed

lemma choice_ok:
  assumes "xs \<noteq> []"
  shows "\<exists>v g'. choice xs g = Inr (v, g') \<and> v \<in> set xs \<and> pos g' = pos g + 1"
  using assms by (simp add: choice_def next_draw_def)

lemma uniform_pos: "uniform a b g = (v, g') \<Longrightarrow> pos g' = pos g + 1"
  by (auto simp: uniform_def next_draw_def)

lemma draw_with_tilt_ok:
  "\<exists>tilt mid g'. draw_with_tilt fn cx cy sz colour g = (Motif fn cx cy sz colour tilt mid, g') \<and>
      pos g < pos g' \<and> pos g' \<le> pos g + 2"
proof -
  obtain tilt g1 where u: "uniform (- 30) 30 g = (tilt, g1)" by (metis prod.exhaust)
  obtain mid g2 where r: "run_draw_fn fn g1 = (mid, g2)" by (metis prod.exhaust)
  have p1: "pos g1 = pos g + 1" using uniform_pos [OF u] .
  have "pos g2 = pos g1 \<or> pos g2 = pos g1 + 1"
  proof (cases fn)
    case draw_flower
    obtain m g3 where u2: "uniform 0 360 g1 = (m, g3)" by (metis prod.exhaust)
    then have "g2 = g3" using r draw_flower by (simp add: run_draw_fn_def)
    then show ?thesis using uniform_pos [OF u2] by simp
  qed (use r in \<open>simp_all add: run_draw_fn_def\<close>)
  then have "pos g < pos g2 \<and> pos g2 \<le> pos g + 2" using p1 by auto
  then show ?thesis using u r by (simp add: draw_with_tilt_def)
qed

lemma motif_choice_ok:
  "\<exists>fn tilt mid g'.
     (if motif = ''flower'' then draw_with_tilt draw_flower cx cy r colour g
      else if motif = ''heart'' then draw_with_tilt draw_heart cx cy r colour g
      else if motif = ''wine'' then draw_with_tilt draw_wine_glass cx cy (r * 2) colour g
      else draw_with_tilt draw_diamond cx cy r colour g)
       = (Motif fn cx cy (if fn = draw_wine_glass then r * 2 else r) colour tilt mid, g') \<and>
     pos g < pos g' \<and> pos g' \<le> pos g + 2"
proof -
  consider "motif = ''flower''" | "motif \<noteq> ''flower''" "motif = ''heart''"
    | "motif \<noteq> ''flower''" "motif \<noteq> ''heart''" "motif = ''wine''"
    | "motif \<noteq> ''flower''" "motif \<noteq> ''heart''" "motif \<noteq> ''wine''" by blast
  then show ?thesis
  proof cases
    case 1
    then show ?thesis using draw_with_tilt_ok [of draw_flower cx cy r colour g] by auto
  next
    case 2
    then show ?thesis using draw_with_tilt_ok [of draw_heart cx cy r colour g] by auto
  next
    case 3
    then show ?thesis using draw_with_tilt_ok [of draw_wine_glass cx cy "r * 2" colour g] by auto
  next
    case 4
    then show ?thesis using draw_with_tilt_ok [of draw_diamond cx cy r colour g] by auto
  qed
qed

lemma accept_ok:
  "\<exists>colour fn tilt mid g'.
     colour \<in> set PASTELS \<and>
     accept random_bubbles flowers cx cy r st =
       Inr \<lparr>canvas = canvas st
                @ (if random_bubbles then [Ellipse ((cx - r, cy - r), (cx + r, cy + r)) colour] else [])
                @ (if flowers
                   then [Motif fn cx cy (if fn = draw_wine_glass then r * 2 else r) colour tilt mid]
                   else []),
            placed = placed st @ [(cx, cy, r)], gen = g'\<rparr> \<and>
     pos (gen st) < pos g' \<and> pos g' \<le> pos (gen st) + 4"
proof -
  have "PASTELS \<noteq> []" by (simp add: PASTELS_def)
  from choice_ok [OF this, of "gen st"]
  obtain colour g1 where c: "choice PASTELS (gen st) = Inr (colour, g1)"
    and cin: "colour \<in> set PASTELS" and p1: "pos g1 = pos (gen st) + 1" by blast
  show ?thesis
  proof (cases flowers)
    case False
    then show ?thesis using c cin p1 by (auto simp: accept_def Let_def)
  next
    case True
    have "[''flower'', ''heart'', ''wine'', ''diamond''] \<noteq> []" by simp
    from choice_ok [OF this, of g1]
    obtain motif g2 where m: "choice [''flower'', ''heart'', ''wine'', ''diamond''] g1 = Inr (motif, g2)"
      and p2: "pos g2 = pos g1 + 1" by blast
    from motif_choice_ok [of motif cx cy r colour g2]
    obtain fn tilt mid g3 where
      d: "(if motif = ''flower'' then draw_with_tilt draw_flower cx cy r colour g2
           else if motif = ''heart'' then draw_with_tilt draw_heart cx cy r colour g2
           else if motif = ''wine'' then draw_with_tilt draw_wine_glass cx cy (r * 2) colour g2
           else draw_with_tilt draw_diamond cx cy r colour g2)
            = (Motif fn cx cy (if fn = draw_wine_glass then r * 2 else r) colour tilt mid, g3)"
      and p3: "pos g2 < pos g3" "pos g3 \<le> pos g2 + 2" by blast
    have "accept random_bubbles flowers cx cy r st =
       Inr \<lparr>canvas = canvas st
                @ (if random_bubbles then [Ellipse ((cx - r, cy - r), (cx + r, cy + r)) colour] else [])
                @ (if flowers
                   then [Motif fn cx cy (if fn = draw_wine_glass then r * 2 else r) colour tilt mid]
                   else []),
            placed = placed st @ [(cx, cy, r)], gen = g3\<rparr>"
      using True by (simp add: accept_def c m d Let_def)
    moreover have "pos (gen st) < pos g3" "pos g3 \<le> pos (gen st) + 4" using p1 p2 p3 by simp_all
    ultimately show ?thesis using cin by blast
  qed
qed

lemma shapes_drawn_snoc:
  "length ds = length ps \<Longrightarrow>
     shapes_drawn rb fl (ps @ [p]) (ds @ [d]) = shapes_drawn rb fl ps ds @ shape_ops rb fl p d"
  by (simp add: shapes_drawn_def)

lemma sample_ok:
  assumes W: "0 \<le> W" and H: "0 \<le> H"
  shows "\<exists>r g1 cx g2 cy g3.
           randint (min W H div 30) (min W H div 15) g = Inr (r, g1) \<and>
           randint r (W - r) g1 = Inr (cx, g2) \<and>
           randint r (H - r) g2 = Inr (cy, g3) \<and>
           in_canvas W H (cx, cy, r) \<and> pos g3 = pos g + 3"
proof -
  let ?m = "min W H"
  have m: "0 \<le> ?m" using W H by simp
  have "?m div 30 \<le> ?m div 15" using m by (simp add: zdiv_mono2)
  from randint_ok [OF this, of g]
  obtain r g1 where r: "randint (?m div 30) (?m div 15) g = Inr (r, g1)"
    and rl: "?m div 30 \<le> r" and ru: "r \<le> ?m div 15" and p1: "pos g1 = pos g + 1" by blast
  have "0 \<le> ?m div 30" using m by (simp add: pos_imp_zdiv_nonneg_iff)
  then have r0: "0 \<le> r" using rl by simp
  have "?m div 15 * 15 + ?m mod 15 = ?m" by (rule div_mult_mod_eq)
  moreover have "0 \<le> ?m mod 15" by (rule pos_mod_sign) simp
  ultimately have "15 * (?m div 15) \<le> ?m" by linarith
  then have "15 * r \<le> ?m" using ru by linarith
  then have "2 * r \<le> ?m" using r0 by linarith
  then have rw: "r \<le> W - r" and rh: "r \<le> H - r" by simp_all
  from randint_ok [OF rw, of g1]
  obtain cx g2 where cx: "randint r (W - r) g1 = Inr (cx, g2)"
    and cxb: "r \<le> cx" "cx \<le> W - r" and p2: "pos g2 = pos g1 + 1" by blast
  from randint_ok [OF rh, of g2]
  obtain cy g3 where cy: "randint r (H - r) g2 = Inr (cy, g3)"
    and cyb: "r \<le> cy" "cy \<le> H - r" and p3: "pos g3 = pos g2 + 1" by blast
  have "in_canvas W H (cx, cy, r)" using rl ru cxb cyb by (simp add: in_canvas_def)
  moreover have "pos g3 = pos g + 3" using p1 p2 p3 by simp
  ultimately show ?thesis using r cx cy by blast
qed

lemma shape_outcome_retry:
  assumes o: "shape_outcome W H rb fl k (st\<lparr>gen := g3\<rparr>) k' st'" and p3: "pos g3 = pos (gen st) + 3"
  shows "shape_outcome W H rb fl (Suc k) st k' st'"
proof -
  have le: "k' \<le> k" using o by (simp add: shape_outcome_def)
  then have e: "Suc k - k' + 1 = (k - k' + 1) + 1" by simp
  have z: "k' = 0 \<longrightarrow> canvas st' = canvas st \<and> placed st' = placed st \<and>
                        pos (gen st') = pos (gen st) + 3 * Suc k"
    using o p3 by (simp add: shape_outcome_def)
  have nz1: "0 < k' \<longrightarrow>
        (\<exists>p d. placed st' = placed st @ [p] \<and> canvas st' = canvas st @ shape_ops rb fl p d \<and>
               fst d \<in> set PASTELS \<and> in_canvas W H p \<and>
               fits (fst p) (fst (snd p)) (snd (snd p)) (placed st))"
    using o unfolding shape_outcome_def by simp
  have nz2: "0 < k' \<longrightarrow> pos (gen st) + 3 * (Suc k - k' + 1) < pos (gen st') \<and>
        pos (gen st') \<le> pos (gen st) + 3 * (Suc k - k' + 1) + 4"
  proof
    assume "0 < k'"
    then have "pos g3 + 3 * (k - k' + 1) < pos (gen st')"
      "pos (gen st') \<le> pos g3 + 3 * (k - k' + 1) + 4"
      using o unfolding shape_outcome_def by simp_all
    then show "pos (gen st) + 3 * (Suc k - k' + 1) < pos (gen st') \<and>
        pos (gen st') \<le> pos (gen st) + 3 * (Suc k - k' + 1) + 4"
      unfolding e p3 by simp
  qed
  show ?thesis unfolding shape_outcome_def using le z nz1 nz2 by simp
qed

lemma place_shape_ok:
  assumes W: "0 \<le> W" and H: "0 \<le> H"
  shows "\<exists>k' st'. place_shape k W H rb fl st = Inr (k', st') \<and> shape_outcome W H rb fl k st k' st'"
proof (induction k arbitrary: st)
  case 0
  show ?case by (simp add: shape_outcome_def)
next
  case (Suc k)
  from sample_ok [OF W H, of "gen st"]
  obtain r g1 cx g2 cy g3 where
    s1: "randint (min W H div 30) (min W H div 15) (gen st) = Inr (r, g1)"
    and s2: "randint r (W - r) g1 = Inr (cx, g2)"
    and s3: "randint r (H - r) g2 = Inr (cy, g3)"
    and inb: "in_canvas W H (cx, cy, r)" and p3: "pos g3 = pos (gen st) + 3" by blast
  show ?case
  proof (cases "fits cx cy r (placed st)")
    case True
    from accept_ok [of rb fl cx cy r "st\<lparr>gen := g3\<rparr>"]
    obtain colour fn tilt mid g' where cin: "colour \<in> set PASTELS"
      and a: "accept rb fl cx cy r (st\<lparr>gen := g3\<rparr>) =
         Inr \<lparr>canvas = canvas st
                @ (if rb then [Ellipse ((cx - r, cy - r), (cx + r, cy + r)) colour] else [])
                @ (if fl then [Motif fn cx cy (if fn = draw_wine_glass then r * 2 else r) colour tilt mid]
                   else []),
              placed = placed st @ [(cx, cy, r)], gen = g'\<rparr>"
      and pa: "pos g3 < pos g'" "pos g' \<le> pos g3 + 4" by auto
    let ?st' = "\<lparr>canvas = canvas st
                @ (if rb then [Ellipse ((cx - r, cy - r), (cx + r, cy + r)) colour] else [])
                @ (if fl then [Motif fn cx cy (if fn = draw_wine_glass then r * 2 else r) colour tilt mid]
                   else []),
              placed = placed st @ [(cx, cy, r)], gen = g'\<rparr>"
    have run: "place_shape (Suc k) W H rb fl st = Inr (Suc k, ?st')"
      using s1 s2 s3 True a by simp
    have shp: "canvas ?st' = canvas st @ shape_ops rb fl (cx, cy, r) (colour, fn, tilt, mid)"
      by (simp add: shape_ops_def)
    have ex: "\<exists>p d. placed ?st' = placed st @ [p] \<and> canvas ?st' = canvas st @ shape_ops rb fl p d \<and>
                fst d \<in> set PASTELS \<and> in_canvas W H p \<and>
                fits (fst p) (fst (snd p)) (snd (snd p)) (placed st)"
      using shp cin inb True
      by (intro exI [of _ "(cx, cy, r)"] exI [of _ "(colour, fn, tilt, mid)"]) simp
    have ps: "pos (gen st) + 3 * (Suc k - Suc k + 1) < pos (gen ?st')"
      "pos (gen ?st') \<le> pos (gen st) + 3 * (Suc k - Suc k + 1) + 4"
      using p3 pa by simp_all
    have "shape_outcome W H rb fl (Suc k) st (Suc k) ?st'"
      unfolding shape_outcome_def using ex ps by simp
    then show ?thesis using run by blast
  next
    case False
    from Suc.IH [of "st\<lparr>gen := g3\<rparr>"]
    obtain k' st' where ih: "place_shape k W H rb fl (st\<lparr>gen := g3\<rparr>) = Inr (k', st')"
      and o: "shape_outcome W H rb fl k (st\<lparr>gen := g3\<rparr>) k' st'" by blast
    have run: "place_shape (Suc k) W H rb fl st = Inr (k', st')"
      using s1 s2 s3 False ih by simp
    show ?thesis using run shape_outcome_retry [OF o p3] by blast
  qed
qed

lemma place_shapes_ok:
  assumes W: "0 \<le> W" and H: "0 \<le> H"
  shows "\<exists>st' ps ds. place_shapes n W H rb fl st = Inr st' \<and>
           placed st' = placed st @ ps \<and> length ds = length ps \<and> length ps \<le> n \<and>
           canvas st' = canvas st @ shapes_drawn rb fl ps ds \<and>
           (\<forall>d \<in> set ds. fst d \<in> set PASTELS) \<and> (\<forall>p \<in> set ps. in_canvas W H p) \<and>
           pos (gen st') \<le> pos (gen st) + 154 * n"
proof (induction n arbitrary: st)
  case 0
  show ?case by (simp add: shapes_drawn_def)
next
  case (Suc n)
  from place_shape_ok [OF W H, of 50 rb fl st]
  obtain k s where one: "place_shape 50 W H rb fl st = Inr (k, s)"
    and o: "shape_outcome W H rb fl 50 st k s" by blast
  from Suc.IH [of s]
  obtain st' ps ds where rest: "place_shapes n W H rb fl s = Inr st'"
    and pl: "placed st' = placed s @ ps" and len: "length ds = length ps" and le: "length ps \<le> n"
    and cv: "canvas st' = canvas s @ shapes_drawn rb fl ps ds"
    and col: "\<forall>d \<in> set ds. fst d \<in> set PASTELS" and inb: "\<forall>p \<in> set ps. in_canvas W H p"
    and ps: "pos (gen st') \<le> pos (gen s) + 154 * n" by blast
  have run: "place_shapes (Suc n) W H rb fl st = Inr st'" using one rest by simp
  have k50: "k \<le> 50" using o by (simp add: shape_outcome_def)
  show ?case
  proof (cases "k = 0")
    case True
    then have "canvas s = canvas st" "placed s = placed st" "pos (gen s) = pos (gen st) + 150"
      using o by (simp_all add: shape_outcome_def)
    then have "placed st' = placed st @ ps" "canvas st' = canvas st @ shapes_drawn rb fl ps ds"
      "pos (gen st') \<le> pos (gen st) + 154 * Suc n" "length ps \<le> Suc n"
      using pl cv ps le by simp_all
    then show ?thesis using run len col inb by blast
  next
    case False
    then obtain p d where p: "placed s = placed st @ [p]"
      and c: "canvas s = canvas st @ shape_ops rb fl p d"
      and dc: "fst d \<in> set PASTELS" and pin: "in_canvas W H p"
      and up: "pos (gen s) \<le> pos (gen st) + 3 * (50 - k + 1) + 4"
      using o unfolding shape_outcome_def by auto
    have "3 * (50 - k + 1) \<le> 150" using False k50 by simp
    then have up': "pos (gen s) \<le> pos (gen st) + 154" using up by simp
    have eq: "shapes_drawn rb fl (p # ps) (d # ds) = shape_ops rb fl p d @ shapes_drawn rb fl ps ds"
      by (simp add: shapes_drawn_def)
    have "placed st' = placed st @ (p # ps)" using pl p by simp
    moreover have "length (d # ds) = length (p # ps)" using len by simp
    moreover have "length (p # ps) \<le> Suc n" using le by simp
    moreover have "canvas st' = canvas st @ shapes_drawn rb fl (p # ps) (d # ds)"
      using cv c eq by simp
    moreover have "\<forall>d' \<in> set (d # ds). fst d' \<in> set PASTELS" using col dc by simp
    moreover have "\<forall>p' \<in> set (p # ps). in_canvas W H p'" using inb pin by simp
    moreover have "pos (gen st') \<le> pos (gen st) + 154 * Suc n" using ps up' by simp
    ultimately show ?thesis using run by blast
  qed
qed

section \<open>Decoration: the invariant and the result of \<^verbatim>\<open>compose_tag\<close>\<close>

lemma place_shape_numeral:
  "place_shape (numeral k) W H random_bubbles flowers st =
     (case randint (min W H div 30) (min W H div 15) (gen st) of
        Inl e \<Rightarrow> Inl e
      | Inr (r, g1) \<Rightarrow>
          (case randint r (W - r) g1 of
             Inl e \<Rightarrow> Inl e
           | Inr (cx, g2) \<Rightarrow>
               (case randint r (H - r) g2 of
                  Inl e \<Rightarrow> Inl e
                | Inr (cy, g3) \<Rightarrow>
                    if fits cx cy r (placed st)
                    then (case accept random_bubbles flowers cx cy r (st\<lparr>gen := g3\<rparr>) of
                            Inl e \<Rightarrow> Inl e
                          | Inr st' \<Rightarrow> Inr (numeral k, st'))
                    else place_shape (pred_numeral k) W H random_bubbles flowers (st\<lparr>gen := g3\<rparr>))))"
  by (simp only: numeral_eq_Suc place_shape.simps)

lemma place_shapes_numeral:
  "place_shapes (numeral k) W H random_bubbles flowers st =
     (case place_shape 50 W H random_bubbles flowers st of
        Inl e \<Rightarrow> Inl e
      | Inr (retries, st') \<Rightarrow> place_shapes (pred_numeral k) W H random_bubbles flowers st')"
  by (simp only: numeral_eq_Suc place_shapes.simps)

lemmas run_simps =
  place_shape_numeral place_shapes_numeral randint_def next_draw_def fits_def hypot_ge_def
  accept_def choice_def uniform_def draw_with_tilt_def run_draw_fn_def
  PASTELS_def FAINT_PINK_def FAINT_GOLD_def FAINT_GREEN_def

lemma decorate_separated:
  "decorate W H random_bubbles flowers ops g = Inr st \<Longrightarrow> separated (placed st)"
proof -
  assume d: "decorate W H random_bubbles flowers ops g = Inr st"
  show ?thesis
  proof (cases "random_bubbles \<or> flowers")
    case True
    then have "place_shapes 80 W H random_bubbles flowers \<lparr>canvas = ops, placed = [], gen = g\<rparr> = Inr st"
      using d by (simp add: decorate_def)
    moreover have "separated (placed \<lparr>canvas = ops, placed = [], gen = g\<rparr>)"
      by (simp add: separated_Nil)
    ultimately show ?thesis by (rule place_shapes_separated [rotated])
  next
    case False
    then have "st = \<lparr>canvas = ops, placed = [], gen = g\<rparr>" using d by (simp add: decorate_def)
    then show ?thesis by (simp add: separated_Nil)
  qed
qed

lemma compose_tag_decorate:
  assumes "compose_tag env name font_path (W, H) font_size random_bubbles flowers table_label g = Inr t"
  shows "\<exists>st fnt small_font out.
           decorate W H random_bubbles flowers (washes W H) g = Inr st \<and>
           load_fonts env font_path (primary_size font_size H) = Inr (fnt, small_font, out) \<and>
           0 \<le> W \<and> 0 \<le> H \<and>
           t = \<lparr>tag_size = (W, H),
                tag_ops = canvas st @ [Rectangle ((0, 0), (W - 1, H - 1)) BLACK (max 2 (min W H div 25))]
                            @ labels env W H name table_label fnt small_font,
                printed = out, tag_gen = gen st\<rparr>"
  using assms
  by (auto simp: compose_tag_def Let_def split: if_splits sum.splits prod.splits)

text \<open>
  Claim C1.  The shapes recorded in \<^verbatim>\<open>placed\<close> never overlap: for every two of them at
  different positions of the list, the Euclidean distance between the centres is at least
  the sum of the radii.  The property is kept by every run of the retry loop (every
  acceptance step) and by every number of rounds of the outer loop, and it holds for the
  list that the decoration of \<^verbatim>\<open>compose_tag\<close> has built when \<^verbatim>\<open>compose_tag\<close> returns;
  the drawing calls of the decoration are the first ones of the returned image.  The
  comparison \<^verbatim>\<open>math.hypot(...) >= r + pr\<close> is decided in exact arithmetic.
\<close>

theorem placements_never_overlap:
  "(separated (placed st) \<and> place_shape k W H random_bubbles flowers st = Inr (k', st')
      \<longrightarrow> separated (placed st')) \<and>
   (separated (placed st1) \<and> place_shapes n W H random_bubbles flowers st1 = Inr st1'
      \<longrightarrow> separated (placed st1')) \<and>
   (compose_tag env name font_path (W, H) font_size random_bubbles flowers table_label g = Inr t
      \<longrightarrow> (\<exists>st2. decorate W H random_bubbles flowers (washes W H) g = Inr st2 \<and>
                 separated (placed st2) \<and>
                 take (length (canvas st2)) (tag_ops t) = canvas st2))"
proof (intro conjI impI)
  assume "separated (placed st) \<and> place_shape k W H random_bubbles flowers st = Inr (k', st')"
  then show "separated (placed st')" using place_shape_separated by blast
next
  assume "separated (placed st1) \<and> place_shapes n W H random_bubbles flowers st1 = Inr st1'"
  then show "separated (placed st1')" using place_shapes_separated by blast
next
  assume "compose_tag env name font_path (W, H) font_size random_bubbles flowers table_label g = Inr t"
  from compose_tag_decorate [OF this]
  obtain st2 fnt small_font out where
    d: "decorate W H random_bubbles flowers (washes W H) g = Inr st2"
    and t: "t = \<lparr>tag_size = (W, H),
                tag_ops = canvas st2 @ [Rectangle ((0, 0), (W - 1, H - 1)) BLACK (max 2 (min W H div 25))]
                            @ labels env W H name table_label fnt small_font,
                printed = out, tag_gen = gen st2\<rparr>" by blast
  have "take (length (canvas st2)) (tag_ops t) = canvas st2" unfolding t by simp
  then show "\<exists>st2. decorate W H random_bubbles flowers (washes W H) g = Inr st2 \<and>
                 separated (placed st2) \<and>
                 take (length (canvas st2)) (tag_ops t) = canvas st2"
    using d decorate_separated [OF d] by blast
qed


lemma decorate_ok:
  assumes W: "0 \<le> W" and H: "0 \<le> H"
  shows "\<exists>st ds. decorate W H rb fl ops g = Inr st \<and>
           length ds = length (placed st) \<and> length (placed st) \<le> 80 \<and>
           canvas st = ops @ shapes_drawn rb fl (placed st) ds \<and>
           (\<forall>d \<in> set ds. fst d \<in> set PASTELS) \<and> (\<forall>p \<in> set (placed st). in_canvas W H p) \<and>
           pos (gen st) \<le> pos g + 154 * 80"
proof (cases "rb \<or> fl")
  case True
  from place_shapes_ok [OF W H, of 80 rb fl "\<lparr>canvas = ops, placed = [], gen = g\<rparr>"]
  obtain st' ps ds where "place_shapes 80 W H rb fl \<lparr>canvas = ops, placed = [], gen = g\<rparr> = Inr st'"
    "placed st' = ps" "length ds = length ps" "length ps \<le> 80"
    "canvas st' = ops @ shapes_drawn rb fl ps ds" "\<forall>d \<in> set ds. fst d \<in> set PASTELS"
    "\<forall>p \<in> set ps. in_canvas W H p" "pos (gen st') \<le> pos g + 154 * 80"
    by auto
  then show ?thesis using True by (auto simp: decorate_def)
next
  case False
  have "shapes_drawn rb fl [] [] = []" by (simp add: shapes_drawn_def)
  then show ?thesis using False
    by (intro exI [of _ "\<lparr>canvas = ops, placed = [], gen = g\<rparr>"] exI [of _ "[]"])
       (simp add: decorate_def)
qed

lemma load_fonts_ok:
  assumes "\<forall>s e. truetype env font_path s = Inl e \<longrightarrow> e = OSError"
  shows "\<exists>fnt small_font out. load_fonts env font_path fs = Inr (fnt, small_font, out)"
  using assms by (auto simp: load_fonts_def Let_def split: sum.splits)

lemma compose_tag_ok:
  assumes W: "0 \<le> W" and H: "0 \<le> H"
    and f: "\<forall>s e. truetype env font_path s = Inl e \<longrightarrow> e = OSError"
  shows "\<exists>st fnt small_font out.
           decorate W H random_bubbles flowers (washes W H) g = Inr st \<and>
           load_fonts env font_path (primary_size font_size H) = Inr (fnt, small_font, out) \<and>
           compose_tag env name font_path (W, H) font_size random_bubbles flowers table_label g =
             Inr \<lparr>tag_size = (W, H),
                  tag_ops = canvas st @ [Rectangle ((0, 0), (W - 1, H - 1)) BLACK (max 2 (min W H div 25))]
                              @ labels env W H name table_label fnt small_font,
                  printed = out, tag_gen = gen st\<rparr>"
proof -
  from decorate_ok [OF W H, of random_bubbles flowers "washes W H" g]
  obtain st where d: "decorate W H random_bubbles flowers (washes W H) g = Inr st" by blast
  from load_fonts_ok [OF f, of "primary_size font_size H"]
  obtain fnt small_font out where
    l: "load_fonts env font_path (primary_size font_size H) = Inr (fnt, small_font, out)" by blast
  show ?thesis using W H d l by (simp add: compose_tag_def Let_def)
qed

theorem placements_never_overlap_witness:
  "separated (placed \<lparr>canvas = [], placed = [(30, 30, 4)], gen = \<lparr>draws = (\<lambda>n. n * 7919 + 17), pos = 0\<rparr>\<rparr>) \<and>
   place_shape 50 60 60 True False
       \<lparr>canvas = [], placed = [(30, 30, 4)], gen = \<lparr>draws = (\<lambda>n. n * 7919 + 17), pos = 0\<rparr>\<rparr>
     = Inr (50, \<lparr>canvas = [Ellipse ((39, 8), (47, 16)) ''#cce8cf''],
                 placed = [(30, 30, 4), (43, 12, 4)],
                 gen = \<lparr>draws = (\<lambda>n. n * 7919 + 17), pos = 4\<rparr>\<rparr>) \<and>
   separated [(30, 30, 4), (43, 12, 4)] \<and>
   place_shapes 2 60 60 True False
       \<lparr>canvas = [], placed = [(30, 30, 4)], gen = \<lparr>draws = (\<lambda>n. n * 7919 + 17), pos = 0\<rparr>\<rparr>
     = Inr \<lparr>canvas = [Ellipse ((39, 8), (47, 16)) ''#cce8cf'', Ellipse ((12, 11), (18, 17)) ''#ffe493''],
            placed = [(30, 30, 4), (43, 12, 4), (15, 14, 3)],
            gen = \<lparr>draws = (\<lambda>n. n * 7919 + 17), pos = 8\<rparr>\<rparr> \<and>
   separated [(30, 30, 4), (43, 12, 4), (15, 14, 3)] \<and>
   (\<exists>t st2.
      compose_tag \<lparr>truetype = (\<lambda>p s. Inl OSError), getbbox = (\<lambda>f s. (0, 0, 10 * int (length s), 12))\<rparr>
          ''Alice Smith'' ''GreatVibes-Regular.ttf'' (60, 60) None True False ''Table 1''
          \<lparr>draws = (\<lambda>n. n * 7919 + 17), pos = 0\<rparr> = Inr t \<and>
      decorate 60 60 True False (washes 60 60) \<lparr>draws = (\<lambda>n. n * 7919 + 17), pos = 0\<rparr> = Inr st2 \<and>
      separated (placed st2) \<and> take (length (canvas st2)) (tag_ops t) = canvas st2)"
proof -
  let ?g = "\<lparr>draws = (\<lambda>n. n * 7919 + 17), pos = 0\<rparr>"
  let ?s0 = "\<lparr>canvas = [], placed = [(30, 30, 4)], gen = ?g\<rparr>"
  let ?s1 = "\<lparr>canvas = [Ellipse ((39, 8), (47, 16)) ''#cce8cf''],
              placed = [(30, 30, 4), (43, 12, 4)],
              gen = \<lparr>draws = (\<lambda>n. n * 7919 + 17), pos = 4\<rparr>\<rparr>"
  let ?s2 = "\<lparr>canvas = [Ellipse ((39, 8), (47, 16)) ''#cce8cf'', Ellipse ((12, 11), (18, 17)) ''#ffe493''],
            placed = [(30, 30, 4), (43, 12, 4), (15, 14, 3)],
            gen = \<lparr>draws = (\<lambda>n. n * 7919 + 17), pos = 8\<rparr>\<rparr>"
  let ?env = "\<lparr>truetype = (\<lambda>p s. Inl OSError), getbbox = (\<lambda>f s. (0, 0, 10 * int (length s), 12))\<rparr>"
  have h0: "separated (placed ?s0)" by (simp add: separated_def)
  have h1: "place_shape 50 60 60 True False ?s0 = Inr (50, ?s1)" by (simp add: run_simps)
  have h2: "place_shapes 2 60 60 True False ?s0 = Inr ?s2" by (simp add: run_simps)
  have le: "0 \<le> (60::int)" by simp
  have f: "\<forall>s e. truetype ?env ''GreatVibes-Regular.ttf'' s = Inl e \<longrightarrow> e = OSError" by simp
  obtain t where h3: "compose_tag ?env ''Alice Smith'' ''GreatVibes-Regular.ttf'' (60, 60) None True False
                         ''Table 1'' ?g = Inr t"
    using compose_tag_ok [OF le le f] by blast
  note inst = placements_never_overlap [of ?s0 50 60 60 True False 50 ?s1 ?s0 2 ?s2 ?env
      "''Alice Smith''" "''GreatVibes-Regular.ttf''" None "''Table 1''" ?g t]
  have c1: "separated (placed ?s1)" using inst h0 h1 by blast
  have c2: "separated (placed ?s2)" using inst h0 h2 by blast
  have c3: "\<exists>st2. decorate 60 60 True False (washes 60 60) ?g = Inr st2 \<and>
                 separated (placed st2) \<and> take (length (canvas st2)) (tag_ops t) = canvas st2"
    using inst h3 by blast
  show ?thesis using h0 h1 h2 h3 c1 c2 c3 by auto
qed

section \<open>The washes and accents\<close>






section \<open>Fonts\<close>






section \<open>Decoration: the retry budget\<close>




section \<open>Decoration: both flags set\<close>

lemma shapes_drawn_Cons:
  "shapes_drawn rb fl (p # ps) (d # ds) = shape_ops rb fl p d @ shapes_drawn rb fl ps ds"
  by (simp add: shapes_drawn_def)

lemma shape_ops_both:
  "shape_ops True True (cx, cy, r) (colour, fn, tilt, mid) =
     [Ellipse ((cx - r, cy - r), (cx + r, cy + r)) colour,
      Motif fn cx cy (if fn = draw_wine_glass then r * 2 else r) colour tilt mid]"
  by (simp add: shape_ops_def)

lemma shapes_drawn_both:
  "length ds = length ps \<Longrightarrow> i < length ps \<Longrightarrow>
     shapes_drawn True True ps ds ! (2 * i) = shape_ops True True (ps ! i) (ds ! i) ! 0 \<and>
     shapes_drawn True True ps ds ! (2 * i + 1) = shape_ops True True (ps ! i) (ds ! i) ! 1 \<and>
     length (shapes_drawn True True ps ds) = 2 * length ps"
proof (induction ps arbitrary: ds i)
  case Nil
  then show ?case by simp
next
  case (Cons p ps)
  then obtain d ds' where ds: "ds = d # ds'" by (cases ds) auto
  obtain cx cy r where p: "p = (cx, cy, r)" by (metis prod_cases3)
  obtain colour fn tilt mid where d: "d = (colour, fn, tilt, mid)" by (metis prod_cases4)
  have l: "length ds' = length ps" using Cons.prems(1) ds by simp
  have len: "length (shapes_drawn True True ps ds') = 2 * length ps"
  proof (cases ps)
    case Nil
    then show ?thesis using l by (simp add: shapes_drawn_def)
  next
    case (Cons q qs)
    then have "0 < length ps" by simp
    from Cons.IH [OF l this] show ?thesis by simp
  qed
  have e: "shapes_drawn True True (p # ps) ds =
             Ellipse ((cx - r, cy - r), (cx + r, cy + r)) colour
               # Motif fn cx cy (if fn = draw_wine_glass then r * 2 else r) colour tilt mid
               # shapes_drawn True True ps ds'"
    unfolding ds shapes_drawn_Cons p d shape_ops_both by simp
  show ?case
  proof (cases i)
    case 0
    then show ?thesis unfolding e using len ds p d by (simp add: shape_ops_both)
  next
    case (Suc j)
    then have j: "j < length ps" using Cons.prems(2) by simp
    have "2 * i = Suc (Suc (2 * j))" "2 * i + 1 = Suc (Suc (2 * j + 1))" using Suc by simp_all
    then show ?thesis unfolding e using Cons.IH [OF l j] len ds Suc by simp
  qed
qed

text \<open>
  Claim C9.  With both flags set, accepting a position \<open>(cx, cy)\<close> with radius \<open>r\<close> draws
  two things and never fails: first the filled circle of radius \<open>r\<close> about \<open>(cx, cy)\<close> in a
  pastel colour, then one motif about the same centre in the same colour, of size \<open>r\<close>
  (the wine glass is handed the height \<open>2 * r\<close>).  Over the whole loop the drawing calls
  added to the canvas are, for the shape at position \<open>i\<close> of the new part of \<^verbatim>\<open>placed\<close>,
  its circle at position \<open>2 * i\<close> and its motif at position \<open>2 * i + 1\<close>.
\<close>

theorem both_decorations_drawn:
  "(\<exists>colour fn tilt mid g'.
      colour \<in> set PASTELS \<and>
      accept True True cx cy r st =
        Inr \<lparr>canvas = canvas st @
                  [Ellipse ((cx - r, cy - r), (cx + r, cy + r)) colour,
                   Motif fn cx cy (if fn = draw_wine_glass then r * 2 else r) colour tilt mid],
             placed = placed st @ [(cx, cy, r)], gen = g'\<rparr>) \<and>
   (0 \<le> W \<and> 0 \<le> H \<longrightarrow>
      (\<exists>st' ps ds.
         place_shapes n W H True True st1 = Inr st' \<and>
         placed st' = placed st1 @ ps \<and> length ds = length ps \<and>
         canvas st' = canvas st1 @ shapes_drawn True True ps ds \<and>
         length (shapes_drawn True True ps ds) = 2 * length ps \<and>
         (\<forall>i < length ps.
            fst (ds ! i) \<in> set PASTELS \<and>
            shapes_drawn True True ps ds ! (2 * i) =
              Ellipse ((fst (ps ! i) - snd (snd (ps ! i)), fst (snd (ps ! i)) - snd (snd (ps ! i))),
                       (fst (ps ! i) + snd (snd (ps ! i)), fst (snd (ps ! i)) + snd (snd (ps ! i))))
                (fst (ds ! i)) \<and>
            shapes_drawn True True ps ds ! (2 * i + 1) =
              Motif (fst (snd (ds ! i))) (fst (ps ! i)) (fst (snd (ps ! i)))
                (if fst (snd (ds ! i)) = draw_wine_glass then snd (snd (ps ! i)) * 2
                 else snd (snd (ps ! i)))
                (fst (ds ! i)) (fst (snd (snd (ds ! i)))) (snd (snd (snd (ds ! i)))))))"
proof (intro conjI impI)
  from accept_ok [of True True cx cy r st]
  obtain colour fn tilt mid g' where c: "colour \<in> set PASTELS"
    and a: "accept True True cx cy r st =
       Inr \<lparr>canvas = canvas st
                @ (if True then [Ellipse ((cx - r, cy - r), (cx + r, cy + r)) colour] else [])
                @ (if True
                   then [Motif fn cx cy (if fn = draw_wine_glass then r * 2 else r) colour tilt mid]
                   else []),
            placed = placed st @ [(cx, cy, r)], gen = g'\<rparr>"
    by blast
  have "accept True True cx cy r st =
        Inr \<lparr>canvas = canvas st @
                  [Ellipse ((cx - r, cy - r), (cx + r, cy + r)) colour,
                   Motif fn cx cy (if fn = draw_wine_glass then r * 2 else r) colour tilt mid],
             placed = placed st @ [(cx, cy, r)], gen = g'\<rparr>"
    unfolding a by simp
  then show "\<exists>colour fn tilt mid g'.
      colour \<in> set PASTELS \<and>
      accept True True cx cy r st =
        Inr \<lparr>canvas = canvas st @
                  [Ellipse ((cx - r, cy - r), (cx + r, cy + r)) colour,
                   Motif fn cx cy (if fn = draw_wine_glass then r * 2 else r) colour tilt mid],
             placed = placed st @ [(cx, cy, r)], gen = g'\<rparr>"
    using c by blast
next
  assume wh: "0 \<le> W \<and> 0 \<le> H"
  then have W: "0 \<le> W" and H: "0 \<le> H" by simp_all
  from place_shapes_ok [OF W H, of n True True st1]
  obtain st' ps ds where run: "place_shapes n W H True True st1 = Inr st'"
    and pl: "placed st' = placed st1 @ ps" and len: "length ds = length ps"
    and cv: "canvas st' = canvas st1 @ shapes_drawn True True ps ds"
    and col: "\<forall>d \<in> set ds. fst d \<in> set PASTELS" by blast
  have all: "\<forall>i < length ps.
            fst (ds ! i) \<in> set PASTELS \<and>
            shapes_drawn True True ps ds ! (2 * i) =
              Ellipse ((fst (ps ! i) - snd (snd (ps ! i)), fst (snd (ps ! i)) - snd (snd (ps ! i))),
                       (fst (ps ! i) + snd (snd (ps ! i)), fst (snd (ps ! i)) + snd (snd (ps ! i))))
                (fst (ds ! i)) \<and>
            shapes_drawn True True ps ds ! (2 * i + 1) =
              Motif (fst (snd (ds ! i))) (fst (ps ! i)) (fst (snd (ps ! i)))
                (if fst (snd (ds ! i)) = draw_wine_glass then snd (snd (ps ! i)) * 2
                 else snd (snd (ps ! i)))
                (fst (ds ! i)) (fst (snd (snd (ds ! i)))) (snd (snd (snd (ds ! i))))"
  proof (intro allI impI)
    fix i assume i: "i < length ps"
    obtain cx cy r where p: "ps ! i = (cx, cy, r)" by (metis prod_cases3)
    obtain colour fn tilt mid where d: "ds ! i = (colour, fn, tilt, mid)" by (metis prod_cases4)
    have "ds ! i \<in> set ds" using i len by simp
    then have c: "fst (ds ! i) \<in> set PASTELS" using col by blast
    from shapes_drawn_both [OF len i]
    show "fst (ds ! i) \<in> set PASTELS \<and>
            shapes_drawn True True ps ds ! (2 * i) =
              Ellipse ((fst (ps ! i) - snd (snd (ps ! i)), fst (snd (ps ! i)) - snd (snd (ps ! i))),
                       (fst (ps ! i) + snd (snd (ps ! i)), fst (snd (ps ! i)) + snd (snd (ps ! i))))
                (fst (ds ! i)) \<and>
            shapes_drawn True True ps ds ! (2 * i + 1) =
              Motif (fst (snd (ds ! i))) (fst (ps ! i)) (fst (snd (ps ! i)))
                (if fst (snd (ds ! i)) = draw_wine_glass then snd (snd (ps ! i)) * 2
                 else snd (snd (ps ! i)))
                (fst (ds ! i)) (fst (snd (snd (ds ! i)))) (snd (snd (snd (ds ! i))))"
      using c unfolding p d shape_ops_both by simp
  qed
  have l2: "length (shapes_drawn True True ps ds) = 2 * length ps"
  proof (cases ps)
    case Nil
    then show ?thesis by (simp add: shapes_drawn_def)
  next
    case (Cons q qs)
    then have "0 < length ps" by simp
    from shapes_drawn_both [OF len this] show ?thesis by simp
  qed
  show "\<exists>st' ps ds.
         place_shapes n W H True True st1 = Inr st' \<and>
         placed st' = placed st1 @ ps \<and> length ds = length ps \<and>
         canvas st' = canvas st1 @ shapes_drawn True True ps ds \<and>
         length (shapes_drawn True True ps ds) = 2 * length ps \<and>
         (\<forall>i < length ps.
            fst (ds ! i) \<in> set PASTELS \<and>
            shapes_drawn True True ps ds ! (2 * i) =
              Ellipse ((fst (ps ! i) - snd (snd (ps ! i)), fst (snd (ps ! i)) - snd (snd (ps ! i))),
                       (fst (ps ! i) + snd (snd (ps ! i)), fst (snd (ps ! i)) + snd (snd (ps ! i))))
                (fst (ds ! i)) \<and>
            shapes_drawn True True ps ds ! (2 * i + 1) =
              Motif (fst (snd (ds ! i))) (fst (ps ! i)) (fst (snd (ps ! i)))
                (if fst (snd (ds ! i)) = draw_wine_glass then snd (snd (ps ! i)) * 2
                 else snd (snd (ps ! i)))
                (fst (ds ! i)) (fst (snd (snd (ds ! i)))) (snd (snd (snd (ds ! i)))))"
    using run pl len cv l2 all by blast
qed

theorem both_decorations_drawn_witness:
  "(let G = \<lparr>draws = (\<lambda>n. n * 7919 + 17), pos = 0\<rparr>;
        S = \<lparr>canvas = [], placed = [(30, 30, 4)], gen = G\<rparr>
    in (0::int) \<le> 60 \<and>
       place_shapes 2 60 60 True True S =
         Inr \<lparr>canvas = [Ellipse ((39, 8), (47, 16)) ''#cce8cf'',
                         Motif draw_heart 43 12 4 ''#cce8cf'' (- (16888498602490815 / 562949953421312)) None,
                         Ellipse ((12, 34), (20, 42)) ''#cce8cf'',
                         Motif draw_diamond 16 38 4 ''#cce8cf'' (- (33776997204625275 / 1125899906842624)) None],
              placed = [(30, 30, 4), (43, 12, 4), (16, 38, 4)],
              gen = G\<lparr>pos := 12\<rparr>\<rparr> \<and>
       (\<exists>st' ps ds.
          place_shapes 2 60 60 True True S = Inr st' \<and>
          placed st' = placed S @ ps \<and> length ds = length ps \<and>
          canvas st' = canvas S @ shapes_drawn True True ps ds \<and>
          length (shapes_drawn True True ps ds) = 2 * length ps \<and>
          (\<forall>i < length ps.
             fst (ds ! i) \<in> set PASTELS \<and>
             shapes_drawn True True ps ds ! (2 * i) =
               Ellipse ((fst (ps ! i) - snd (snd (ps ! i)), fst (snd (ps ! i)) - snd (snd (ps ! i))),
                        (fst (ps ! i) + snd (snd (ps ! i)), fst (snd (ps ! i)) + snd (snd (ps ! i))))
                 (fst (ds ! i)) \<and>
             shapes_drawn True True ps ds ! (2 * i + 1) =
               Motif (fst (snd (ds ! i))) (fst (ps ! i)) (fst (snd (ps ! i)))
                 (if fst (snd (ds ! i)) = draw_wine_glass then snd (snd (ps ! i)) * 2
                  else snd (snd (ps ! i)))
                 (fst (ds ! i)) (fst (snd (snd (ds ! i)))) (snd (snd (snd (ds ! i)))))))"
proof -
  let ?G = "\<lparr>draws = (\<lambda>n. n * 7919 + 17), pos = 0\<rparr>"
  let ?S = "\<lparr>canvas = [], placed = [(30, 30, 4)], gen = ?G\<rparr>"
  have le: "(0::int) \<le> 60" by simp
  have run: "place_shapes 2 60 60 True True ?S =
         Inr \<lparr>canvas = [Ellipse ((39, 8), (47, 16)) ''#cce8cf'',
                         Motif draw_heart 43 12 4 ''#cce8cf'' (- (16888498602490815 / 562949953421312)) None,
                         Ellipse ((12, 34), (20, 42)) ''#cce8cf'',
                         Motif draw_diamond 16 38 4 ''#cce8cf'' (- (33776997204625275 / 1125899906842624)) None],
              placed = [(30, 30, 4), (43, 12, 4), (16, 38, 4)],
              gen = ?G\<lparr>pos := 12\<rparr>\<rparr>"
    by (simp add: run_simps)
  show ?thesis
    unfolding Let_def
    using le run both_decorations_drawn [of 43 12 4 ?S 60 60 2 ?S]
    by blast
qed

end
